theory Spec2Isabelle
  imports Complex_Main "HOL-Library.Multiset" "HOL-Library.Sublist"
begin

section \<open>The explorations generator of the site (scripts/explorations-generator.js)\<close>

text \<open>
  The script registers one Hexo generator. It filters \<open>locals.all_posts\<close> down to the
  posts of the category \<open>Explorations\<close>, orders them (the collection's own \<open>sort\<close> by a
  configured field, then an in-place \<open>Array.prototype.sort\<close> by the sticky priority) and
  hands the result to \<open>hexo-pagination\<close>.

  Two routines the script calls are not part of the sources: the \<open>sort\<close> method of the
  collection class (the content repository's) and the function \<open>pagination\<close> that line 5
  requires. The generator is therefore embedded with both as parameters, exactly as the
  script receives them; separate definitions, marked as modelled from the spec, give the
  behaviour the specification prescribes for them.
\<close>

subsection \<open>Data model\<close>

text \<open>A category is an object with a \<open>name\<close> property.\<close>

record category =
  name :: string

text \<open>
  A post, as far as the generator and the specification look at it: \<open>categories\<close> may be
  absent or null (\<open>None\<close>), \<open>sticky\<close> is an optional number, \<open>hidden\<close> an optional flag.
  All the other properties of the post, the date among them, are opaque to the script; the
  ones a collection can be ordered by are kept as an association list from the property's
  name to a value of a linearly ordered type.
\<close>

record 'k post =
  categories :: "category list option"
  sticky :: "int option"
  hidden :: "bool option"
  properties :: "(string \<times> 'k) list"

text \<open>\<open>locals\<close>: the collection \<open>all_posts\<close> may be missing.\<close>

record 'k locals =
  all_posts :: "'k post list option"

text \<open>
  The part of the site configuration the script reads. The configured page size is a number
  of a type \<open>'n\<close> the script does not look into: the integers, or the reals for a
  configuration that holds a fraction.
\<close>

record 'n index_generator_config =
  order_by :: "string option"
  per_page :: "'n option"

record 'n config =
  index_generator :: "'n index_generator_config option"
  pagination_dir :: "string option"

text \<open>
  The options object of the call at lines 34 to 42; \<open>format\<close> is the format string the
  script builds, \<open>paginationDir + '/%d/'\<close>.
\<close>

datatype data_value = Flag bool | Text string

record 'n options =
  perPage :: 'n
  layout :: "string list"
  format :: string
  data :: "(string \<times> data_value) list"

text \<open>A page descriptor (section 3 of the specification).\<close>

record 'a page =
  items :: "'a list"
  index :: nat
  totalPages :: nat
  path :: string
  layoutCandidates :: "string list"
  extraData :: "(string \<times> data_value) list"

text \<open>
  Failures: a \<open>TypeError\<close> of the language (reading a property of \<open>undefined\<close>) and the
  configuration error of section 7 of the specification.
\<close>

datatype error = TypeError | ConfigurationError

subsection \<open>The language's operators\<close>

text \<open>
  \<open>v || d\<close> on a possibly missing string or number: the default is taken when the value is
  missing or falsy (the empty string, the number 0).
\<close>

definition or_string :: "string option \<Rightarrow> string \<Rightarrow> string" where
  "or_string v d = (case v of None \<Rightarrow> d | Some s \<Rightarrow> if s = [] then d else s)"

definition or_number :: "'n::zero option \<Rightarrow> 'n \<Rightarrow> 'n" where
  "or_number v d = (case v of None \<Rightarrow> d | Some n \<Rightarrow> if n = 0 then d else n)"

text \<open>
  \<open>Array.prototype.sort(comparefn)\<close>: the sort of the language is stable, and for a
  consistent comparator its result is the one stable arrangement in which no element is
  followed by one that compares smaller. Inserting the elements from the right, each before
  the first element it does not compare greater than, computes that arrangement.
\<close>

fun js_insert :: "('a \<Rightarrow> 'a \<Rightarrow> int) \<Rightarrow> 'a \<Rightarrow> 'a list \<Rightarrow> 'a list" where
  "js_insert comparefn a [] = [a]"
| "js_insert comparefn a (b # bs) =
     (if comparefn a b \<le> 0 then a # b # bs else b # js_insert comparefn a bs)"

definition js_sort :: "('a \<Rightarrow> 'a \<Rightarrow> int) \<Rightarrow> 'a list \<Rightarrow> 'a list" where
  "js_sort comparefn xs = foldr (js_insert comparefn) xs []"

subsection \<open>The generator\<close>

text \<open>Lines 16 to 19: the filter over \<open>locals.all_posts\<close>.\<close>

definition explorationsPosts :: "'k post list \<Rightarrow> 'k post list" where
  "explorationsPosts posts =
     filter (\<lambda>post.
        case categories post of
          None \<Rightarrow> False
        | Some cats \<Rightarrow>
            if length cats = 0 then False
            else list_ex (\<lambda>cat. name cat = ''Explorations'') cats) posts"

text \<open>Line 30: the comparator of the sticky pass.\<close>

definition sticky_compare :: "'k post \<Rightarrow> 'k post \<Rightarrow> int" where
  "sticky_compare a b = or_number (sticky b) 0 - or_number (sticky a) 0"

text \<open>
  Lines 7 to 43. \<open>query_sort\<close> is the collection's \<open>sort\<close> method and \<open>pagination\<close> the
  required function; an exception either of them throws leaves the generator.
\<close>

definition generator ::
  "(string \<Rightarrow> 'k post list \<Rightarrow> error + 'k post list) \<Rightarrow>
   (string \<Rightarrow> 'k post list \<Rightarrow> 'n options \<Rightarrow> error + 'k post page list) \<Rightarrow>
   ('n::{zero,numeral}) config \<Rightarrow> 'k locals \<Rightarrow> error + 'k post page list" where
  "generator query_sort pagination config locals =
     (case all_posts locals of
        None \<Rightarrow> Inr []
      | Some posts \<Rightarrow>
          if length (explorationsPosts posts) = 0 then Inr []
          else
            (case index_generator config of
               None \<Rightarrow> Inl TypeError
             | Some ig \<Rightarrow>
                 (case query_sort (or_string (order_by ig) ''-date'') (explorationsPosts posts) of
                    Inl e \<Rightarrow> Inl e
                  | Inr sortedPosts \<Rightarrow>
                      pagination ''explorations/'' (js_sort sticky_compare sortedPosts)
                        \<lparr>perPage = or_number (per_page ig) 10,
                         layout = [''explorations'', ''index''],
                         format = or_string (pagination_dir config) ''page'' @ ''/%d/'',
                         data = [(''__explorations'', Flag True),
                                 (''subtitle'', Text ''Curiosity-driven dives'')]\<rparr>)))"

subsection \<open>The primary ordering, from the specification\<close>

text \<open>
  Modelled from the spec: the collection's \<open>sort\<close> method (line 27) belongs to the content
  repository's collection class, which is not among the sources. Section 4.2 of the
  specification: the option names a field, a leading \<open>-\<close> asks for descending order, items
  are ordered by the field's natural ordering, the sort is stable; section 7: a field that
  does not exist on the items is a configuration error.
\<close>

definition parse_order_by :: "string \<Rightarrow> bool \<times> string" where
  "parse_order_by s =
     (case s of
        c # f \<Rightarrow> if c = CHR ''-'' then (True, f) else (False, s)
      | [] \<Rightarrow> (False, s))"

text \<open>
  Modelled from the spec: the values a named field can have (section 4.2: the option names
  a field of the items). The sticky priority is a number and the hidden flag a boolean; the
  values of the other properties are those of the content repository.
\<close>

datatype 'k js_value = JNumber int | JBoolean bool | JProperty 'k

text \<open>
  Modelled from the spec: the value an item has for a named field; \<open>None\<close> when the field
  does not exist on the item. The names \<open>sticky\<close> and \<open>hidden\<close> are the item's own
  attributes; every other name is looked up among the item's further properties.
\<close>

definition field_value :: "string \<Rightarrow> 'k post \<Rightarrow> 'k js_value option" where
  "field_value f p =
     (if f = ''sticky'' then map_option JNumber (sticky p)
      else if f = ''hidden'' then map_option JBoolean (hidden p)
      else map_option JProperty (map_of (properties p) f))"

text \<open>
  Modelled from the spec: the natural ordering of a field's values (section 4.2), as a
  comparator in the language's convention: negative, zero or positive. Numbers compare
  numerically, booleans with false before true, property values in their own order; values
  of different kinds, which one field does not mix, compare equal.
\<close>

definition three_way :: "'a::linorder \<Rightarrow> 'a \<Rightarrow> int" where
  "three_way x y = (if x < y then - 1 else if y < x then 1 else 0)"

fun natural_compare :: "'k::linorder js_value option \<Rightarrow> 'k js_value option \<Rightarrow> int" where
  "natural_compare (Some (JNumber x)) (Some (JNumber y)) = three_way x y"
| "natural_compare (Some (JBoolean x)) (Some (JBoolean y)) = three_way x y"
| "natural_compare (Some (JProperty x)) (Some (JProperty y)) = three_way x y"
| "natural_compare u v = 0"

text \<open>
  Modelled from the spec: the comparator of the primary ordering (section 4.2), the natural
  comparison of the named field, negated when the option asks for descending order.
\<close>

definition primary_compare :: "string \<Rightarrow> 'k::linorder post \<Rightarrow> 'k post \<Rightarrow> int" where
  "primary_compare orderBy a b =
     (case parse_order_by orderBy of
        (descending, f) \<Rightarrow>
          (if descending then - 1 else 1) * natural_compare (field_value f a) (field_value f b))"

text \<open>
  Modelled from the spec: the primary ordering as a whole (sections 4.2 and 7). An item
  without the named field makes the step fail; otherwise the items are sorted stably with
  the comparator above.
\<close>

definition spec_sort :: "string \<Rightarrow> 'k::linorder post list \<Rightarrow> error + 'k post list" where
  "spec_sort orderBy xs =
     (if list_ex (\<lambda>p. field_value (snd (parse_order_by orderBy)) p = None) xs
      then Inl ConfigurationError
      else Inr (js_sort (primary_compare orderBy) xs))"

subsection \<open>The paginator, from the specification\<close>

text \<open>
  Modelled from the spec: the function \<open>pagination\<close> (the package required at line 5) is
  not among the sources. Section 4.3: consecutive items are grouped into chunks of at most
  \<open>perPage\<close>, the last chunk possibly shorter.
\<close>

function chunk :: "nat \<Rightarrow> 'a list \<Rightarrow> 'a list list" where
  "chunk n xs = (if n = 0 \<or> xs = [] then [] else take n xs # chunk n (drop n xs))"
  by pat_completeness auto
termination
  by (relation "measure (\<lambda>(n, xs). length xs)") auto

declare chunk.simps [simp del]

text \<open>
  Modelled from the spec: the 1-based index as it is written into an address (section 4.3),
  its decimal numeral. \<open>digit_char\<close> is the character of a digit below 10.
\<close>

definition digit_char :: "nat \<Rightarrow> char" where
  "digit_char d = char_of (48 + d)"

fun string_of_nat :: "nat \<Rightarrow> string" where
  "string_of_nat n =
     (if n < 10 then [digit_char n]
      else string_of_nat (n div 10) @ [digit_char (n mod 10)])"

declare string_of_nat.simps [simp del]

text \<open>
  Modelled from the spec: the format string with the page's index in the place of its
  placeholder. The first \<open>%d\<close> of the string is the placeholder; what follows it is copied.
\<close>

fun render_format :: "string \<Rightarrow> nat \<Rightarrow> string" where
  "render_format (c # d # cs) i =
     (if c = CHR ''%'' \<and> d = CHR ''d'' then string_of_nat i @ cs
      else c # render_format (d # cs) i)"
| "render_format cs i = cs"

text \<open>
  Modelled from the spec: the total page count of section 4.3, the ceiling of the sequence
  length divided by \<open>perPage\<close>, in natural-number arithmetic.
\<close>

definition ceil_div :: "nat \<Rightarrow> nat \<Rightarrow> nat" where
  "ceil_div n d = (n + d - 1) div d"

text \<open>
  Modelled from the spec: the address rule of section 4.3. The first page's address is the
  base unmodified, a later page's address is the base followed by the rendered format.
\<close>

definition page_path :: "string \<Rightarrow> string \<Rightarrow> nat \<Rightarrow> string" where
  "page_path base fmt i = (if i = 1 then base else base @ render_format fmt i)"

text \<open>
  Modelled from the spec: the paginator of sections 4.3 and 4.4 (the package
  \<open>hexo-pagination\<close> is not among the sources). A \<open>perPage\<close> that is not positive is a
  configuration error; otherwise the chunks are numbered from 1 and each becomes a page
  descriptor with the shared total, its address, the layout candidates and the extra data.
\<close>

definition spec_pagination :: "string \<Rightarrow> 'a list \<Rightarrow> int options \<Rightarrow> error + 'a page list" where
  "spec_pagination base posts opts =
     (if perPage opts \<le> 0 then Inl ConfigurationError
      else
        Inr (map (\<lambda>(i, c).
                \<lparr>items = c,
                 index = i,
                 totalPages = ceil_div (length posts) (nat (perPage opts)),
                 path = page_path base (format opts) i,
                 layoutCandidates = layout opts,
                 extraData = data opts\<rparr>)
              (enumerate 1 (chunk (nat (perPage opts)) posts))))"

subsection \<open>The specification's reading of the selector\<close>

text \<open>
  Section 4.1 in its own words: an item belongs to the target category when it has at least
  one category whose name equals the target exactly.
\<close>

definition in_category :: "string \<Rightarrow> 'k post \<Rightarrow> bool" where
  "in_category target p =
     (case categories p of
        None \<Rightarrow> False
      | Some cats \<Rightarrow> \<exists>cat \<in> set cats. name cat = target)"

text \<open>The sticky priority with a missing value counting as 0.\<close>

definition sticky_priority :: "'k post \<Rightarrow> int" where
  "sticky_priority p = (case sticky p of None \<Rightarrow> 0 | Some n \<Rightarrow> n)"

text \<open>A transformation of the items carried by a page, everything else kept.\<close>

definition map_page :: "('a \<Rightarrow> 'b) \<Rightarrow> 'a page \<Rightarrow> 'b page" where
  "map_page f pg =
     \<lparr>items = map f (items pg), index = index pg, totalPages = totalPages pg,
      path = path pg, layoutCandidates = layoutCandidates pg, extraData = extraData pg\<rparr>"

text \<open>
  The primary-sort key of an item under an \<open>orderBy\<close> option: the value of the field the
  option names.
\<close>

definition primary_key :: "string \<Rightarrow> 'k post \<Rightarrow> 'k js_value option" where
  "primary_key orderBy p = field_value (snd (parse_order_by orderBy)) p"

text \<open>An item with its hidden flag removed.\<close>

definition without_hidden :: "'k post \<Rightarrow> 'k post" where
  "without_hidden p = p\<lparr>hidden := None\<rparr>"

subsection \<open>Example inputs\<close>

text \<open>
  The scenario of section 8: A is the newest item, B the middle one and pinned with
  priority 1, C the oldest. Dates are day numbers.
\<close>

definition post_A :: "nat post" where
  "post_A = \<lparr>categories = Some [\<lparr>name = ''Explorations''\<rparr>], sticky = Some 0,
             hidden = None, properties = [(''date'', 30)]\<rparr>"

definition post_B :: "nat post" where
  "post_B = \<lparr>categories = Some [\<lparr>name = ''Notes''\<rparr>, \<lparr>name = ''Explorations''\<rparr>],
             sticky = Some 1, hidden = Some True, properties = [(''date'', 20)]\<rparr>"

definition post_C :: "nat post" where
  "post_C = \<lparr>categories = Some [\<lparr>name = ''Explorations''\<rparr>], sticky = None,
             hidden = Some False, properties = [(''date'', 10)]\<rparr>"

text \<open>
  D has the date and the sticky priority of A (its sticky value is missing) and differs
  from A in a further property only.
\<close>

definition post_D :: "nat post" where
  "post_D = \<lparr>categories = Some [\<lparr>name = ''Explorations''\<rparr>], sticky = None,
             hidden = None, properties = [(''date'', 30), (''words'', 1200)]\<rparr>"

text \<open>Items that do not match: another casing, another category, no categories.\<close>

definition post_lowercase :: "nat post" where
  "post_lowercase = \<lparr>categories = Some [\<lparr>name = ''explorations''\<rparr>], sticky = Some 7,
                     hidden = None, properties = [(''date'', 40)]\<rparr>"

definition post_other :: "nat post" where
  "post_other = \<lparr>categories = Some [\<lparr>name = ''Cryptography''\<rparr>], sticky = None,
                 hidden = None, properties = [(''date'', 50)]\<rparr>"

definition post_uncategorised :: "nat post" where
  "post_uncategorised = \<lparr>categories = None, sticky = None, hidden = None,
                         properties = [(''date'', 60)]\<rparr>"

definition post_empty_categories :: "nat post" where
  "post_empty_categories = \<lparr>categories = Some [], sticky = Some 3, hidden = None,
                            properties = [(''date'', 70)]\<rparr>"

definition site_config :: "int option \<Rightarrow> int config" where
  "site_config n =
     \<lparr>index_generator = Some \<lparr>order_by = None, per_page = n\<rparr>, pagination_dir = None\<rparr>"



text \<open>A configuration with a page size of 2 and a pagination directory of one's choice.\<close>

definition directory_config :: "string option \<Rightarrow> int config" where
  "directory_config d =
     \<lparr>index_generator = Some \<lparr>order_by = None, per_page = Some 2\<rparr>, pagination_dir = d\<rparr>"

text \<open>
  A configuration that names the date, descending, as the order, and one that orders by the
  hidden flag.
\<close>

definition dated_config :: "int config" where
  "dated_config =
     \<lparr>index_generator = Some \<lparr>order_by = Some ''-date'', per_page = Some 2\<rparr>,
      pagination_dir = None\<rparr>"

definition hidden_order_config :: "int config" where
  "hidden_order_config =
     \<lparr>index_generator = Some \<lparr>order_by = Some ''hidden'', per_page = None\<rparr>,
      pagination_dir = None\<rparr>"

definition page_of :: "'a list \<Rightarrow> nat \<Rightarrow> nat \<Rightarrow> string \<Rightarrow> 'a page" where
  "page_of xs i n p =
     \<lparr>items = xs, index = i, totalPages = n, path = p,
      layoutCandidates = [''explorations'', ''index''],
      extraData = [(''__explorations'', Flag True),
                   (''subtitle'', Text ''Curiosity-driven dives'')]\<rparr>"

section \<open>Properties\<close>

subsection \<open>The selector\<close>

lemma explorationsPosts_filter:
  "explorationsPosts posts = filter (in_category ''Explorations'') posts"
proof -
  have "(case categories p of None \<Rightarrow> False
         | Some cats \<Rightarrow> if length cats = 0 then False
                        else list_ex (\<lambda>cat. name cat = ''Explorations'') cats)
        = in_category ''Explorations'' p" for p :: "'a post"
    by (cases "categories p") (auto simp: in_category_def list_ex_iff)
  then show ?thesis
    by (simp add: explorationsPosts_def)
qed

lemma explorationsPosts_append:
  "explorationsPosts (xs @ ys) = explorationsPosts xs @ explorationsPosts ys"
  by (simp add: explorationsPosts_def)

lemma explorationsPosts_examples:
  "explorationsPosts [post_lowercase, post_C, post_uncategorised, post_B, post_other,
     post_empty_categories, post_A] = [post_C, post_B, post_A]"
  by (simp add: explorationsPosts_def post_A_def post_B_def post_C_def post_lowercase_def
      post_other_def post_uncategorised_def post_empty_categories_def)

text \<open>
  C2. The selector's output is exactly the sub-sequence of the input formed by the items
  that have at least one category named \<open>Explorations\<close> (string equality, so another casing
  does not match), in the input's order; every item of the output has such a category.
\<close>

theorem selector_exact:
  "explorationsPosts posts = filter (in_category ''Explorations'') posts
   \<and> subseq (explorationsPosts posts) posts
   \<and> (\<forall>p \<in> set (explorationsPosts posts). in_category ''Explorations'' p)"
  by (simp add: explorationsPosts_filter)

theorem selector_exact_witness:
  "explorationsPosts [post_lowercase, post_C, post_uncategorised, post_B, post_other,
       post_empty_categories, post_A]
     = [post_C, post_B, post_A]
   \<and> subseq [post_C, post_B, post_A]
       [post_lowercase, post_C, post_uncategorised, post_B, post_other,
        post_empty_categories, post_A]
   \<and> in_category ''Explorations'' post_B
   \<and> \<not> in_category ''Explorations'' post_lowercase"
proof -
  let ?all = "[post_lowercase, post_C, post_uncategorised, post_B, post_other,
               post_empty_categories, post_A]"
  have selected: "explorationsPosts ?all = [post_C, post_B, post_A]"
    by (rule explorationsPosts_examples)
  have "subseq (explorationsPosts ?all) ?all"
    and "\<forall>p \<in> set (explorationsPosts ?all). in_category ''Explorations'' p"
    using selector_exact [of ?all] by blast+
  then have "subseq [post_C, post_B, post_A] ?all"
    and "in_category ''Explorations'' post_B"
    by (simp_all only: selected list.set insert_iff ball_simps simp_thms)
  moreover have "\<not> in_category ''Explorations'' post_lowercase"
    by (simp add: in_category_def post_lowercase_def)
  ultimately show ?thesis
    using selected by blast
qed

lemma malformed_not_selected:
  assumes "categories p = None \<or> categories p = Some []"
  shows "explorationsPosts (p # ys) = explorationsPosts ys"
  using assms by (auto simp: explorationsPosts_def)

text \<open>
  C10. An item whose \<open>categories\<close> is absent, null or an empty list is dropped by the
  selector like any non-matching item: it is never in the output, the other items are
  selected as if it were not there, and the generator as a whole returns what it returns
  without the item, so the item raises nothing.
\<close>

theorem selector_total_on_malformed:
  assumes "categories p = None \<or> categories p = Some []"
  shows "p \<notin> set (explorationsPosts posts)
    \<and> explorationsPosts (xs @ p # ys) = explorationsPosts (xs @ ys)
    \<and> generator query_sort pagination config \<lparr>all_posts = Some (xs @ p # ys)\<rparr>
        = generator query_sort pagination config \<lparr>all_posts = Some (xs @ ys)\<rparr>"
proof -
  have "\<not> in_category ''Explorations'' p"
    using assms by (auto simp: in_category_def)
  then have "p \<notin> set (explorationsPosts posts)"
    by (simp add: explorationsPosts_filter)
  moreover have same: "explorationsPosts (xs @ p # ys) = explorationsPosts (xs @ ys)"
    using malformed_not_selected [OF assms, of ys] by (simp add: explorationsPosts_append)
  moreover have "generator query_sort pagination config \<lparr>all_posts = Some (xs @ p # ys)\<rparr>
        = generator query_sort pagination config \<lparr>all_posts = Some (xs @ ys)\<rparr>"
    by (simp only: generator_def locals.simps option.case same)
  ultimately show ?thesis by blast
qed

theorem selector_total_on_malformed_witness:
  "categories post_empty_categories = Some []
   \<and> post_empty_categories \<notin> set (explorationsPosts [post_C, post_empty_categories, post_B])
   \<and> explorationsPosts [post_C, post_empty_categories, post_B] = [post_C, post_B]
   \<and> generator spec_sort spec_pagination (site_config None)
        \<lparr>all_posts = Some [post_C, post_empty_categories, post_B]\<rparr>
      = generator spec_sort spec_pagination (site_config None)
        \<lparr>all_posts = Some [post_C, post_B]\<rparr>"
proof -
  have empty: "categories post_empty_categories = Some []"
    by (simp add: post_empty_categories_def)
  then have malformed:
    "categories post_empty_categories = None \<or> categories post_empty_categories = Some []"
    by simp
  have kept: "explorationsPosts [post_C, post_B] = [post_C, post_B]"
    by (simp add: explorationsPosts_def post_C_def post_B_def)
  have "post_empty_categories \<notin> set (explorationsPosts [post_C, post_empty_categories, post_B])"
    and dropped: "explorationsPosts [post_C, post_empty_categories, post_B]
                  = explorationsPosts [post_C, post_B]"
    and "generator spec_sort spec_pagination (site_config None)
           \<lparr>all_posts = Some [post_C, post_empty_categories, post_B]\<rparr>
         = generator spec_sort spec_pagination (site_config None)
           \<lparr>all_posts = Some [post_C, post_B]\<rparr>"
    using selector_total_on_malformed [OF malformed,
        of "[post_C, post_empty_categories, post_B]" "[post_C]" "[post_B]"
           spec_sort spec_pagination "site_config None"]
    unfolding append.simps by blast+
  moreover have "explorationsPosts [post_C, post_empty_categories, post_B] = [post_C, post_B]"
    using dropped kept by (rule trans)
  ultimately show ?thesis using empty by blast
qed

subsection \<open>The empty result\<close>

text \<open>
  C5. When the collection is absent, or no item of it matches the category, the generator
  returns the empty sequence of pages as its ordinary result. Nothing of the configuration
  is read before that, so not even a missing or invalid configuration makes it fail.
\<close>

theorem empty_result_is_normal:
  assumes "all_posts locals = None
           \<or> (\<exists>posts. all_posts locals = Some posts \<and> explorationsPosts posts = [])"
  shows "generator query_sort pagination config locals = Inr []"
  using assms by (auto simp: generator_def)

theorem empty_result_is_normal_witness:
  "generator spec_sort spec_pagination \<lparr>index_generator = None, pagination_dir = None\<rparr>
       \<lparr>all_posts = None\<rparr> = (Inr [] :: error + nat post page list)
   \<and> explorationsPosts [post_other, post_lowercase, post_uncategorised] = []
   \<and> generator spec_sort spec_pagination (site_config (Some (- 3)))
       \<lparr>all_posts = Some [post_other, post_lowercase, post_uncategorised]\<rparr> = Inr []"
proof -
  have none: "explorationsPosts [post_other, post_lowercase, post_uncategorised] = []"
    by (simp add: explorationsPosts_def post_other_def post_lowercase_def
        post_uncategorised_def)
  have "generator spec_sort spec_pagination \<lparr>index_generator = None, pagination_dir = None\<rparr>
       \<lparr>all_posts = None\<rparr> = (Inr [] :: error + nat post page list)"
    using empty_result_is_normal [of "\<lparr>all_posts = None\<rparr>"] by simp
  moreover have "generator spec_sort spec_pagination (site_config (Some (- 3)))
       \<lparr>all_posts = Some [post_other, post_lowercase, post_uncategorised]\<rparr> = Inr []"
    using none
      empty_result_is_normal
        [of "\<lparr>all_posts = Some [post_other, post_lowercase, post_uncategorised]\<rparr>"]
    by simp
  ultimately show ?thesis using none by blast
qed

subsection \<open>The language's sort\<close>

lemma mset_js_insert: "mset (js_insert c a bs) = add_mset a (mset bs)"
  by (induction bs) simp_all

lemma mset_js_sort: "mset (js_sort c xs) = mset xs"
  by (induction xs) (simp_all add: js_sort_def mset_js_insert)

lemma length_js_sort: "length (js_sort c xs) = length xs"
  using mset_js_sort [of c xs] by (metis size_mset)

lemma set_js_insert: "set (js_insert c a bs) = insert a (set bs)"
  by (induction bs) auto

text \<open>
  Stability: a class of elements none of which compares greater than another keeps its
  order.
\<close>

lemma filter_js_insert:
  assumes "\<And>b. b \<in> set bs \<Longrightarrow> P a \<Longrightarrow> P b \<Longrightarrow> c a b \<le> 0"
  shows "filter P (js_insert c a bs) = (if P a then a # filter P bs else filter P bs)"
  using assms by (induction bs) auto

lemma filter_js_sort:
  assumes "\<And>a b. P a \<Longrightarrow> P b \<Longrightarrow> c a b \<le> 0"
  shows "filter P (js_sort c xs) = filter P xs"
proof (induction xs)
  case Nil
  show ?case by (simp add: js_sort_def)
next
  case (Cons x xs)
  have "filter P (js_insert c x (js_sort c xs)) =
        (if P x then x # filter P (js_sort c xs) else filter P (js_sort c xs))"
    by (rule filter_js_insert) (rule assms)
  with Cons show ?case by (simp add: js_sort_def)
qed

text \<open>For a comparator that is total and transitive the result is ordered.\<close>

lemma sorted_wrt_js_insert:
  assumes total: "\<And>a b. 0 < c a b \<Longrightarrow> c b a \<le> 0"
    and trans: "\<And>a b d. c a b \<le> 0 \<Longrightarrow> c b d \<le> 0 \<Longrightarrow> c a d \<le> 0"
    and "sorted_wrt (\<lambda>a b. c a b \<le> 0) bs"
  shows "sorted_wrt (\<lambda>a b. c a b \<le> 0) (js_insert c a bs)"
  using assms(3)
proof (induction bs)
  case Nil
  show ?case by simp
next
  case (Cons b bs)
  show ?case
  proof (cases "c a b \<le> 0")
    case True
    with Cons.prems show ?thesis by (auto intro: trans)
  next
    case False
    then have "c b a \<le> 0" using total [of a b] by simp
    with False Cons show ?thesis by (auto simp: set_js_insert)
  qed
qed

lemma sorted_wrt_js_sort:
  assumes "\<And>a b. 0 < c a b \<Longrightarrow> c b a \<le> 0"
    and "\<And>a b d. c a b \<le> 0 \<Longrightarrow> c b d \<le> 0 \<Longrightarrow> c a d \<le> 0"
  shows "sorted_wrt (\<lambda>a b. c a b \<le> 0) (js_sort c xs)"
proof (induction xs)
  case Nil
  show ?case by (simp add: js_sort_def)
next
  case (Cons x xs)
  have "sorted_wrt (\<lambda>a b. c a b \<le> 0) (js_insert c x (js_sort c xs))"
    using assms Cons by (intro sorted_wrt_js_insert) blast+
  then show ?case by (simp add: js_sort_def)
qed

text \<open>Sorting commutes with a renaming of the elements that the comparator cannot see.\<close>

lemma map_js_insert:
  assumes "\<And>a b. c' (f a) (f b) = c a b"
  shows "map f (js_insert c a bs) = js_insert c' (f a) (map f bs)"
  by (induction bs) (simp_all add: assms)

lemma map_js_sort:
  assumes "\<And>a b. c' (f a) (f b) = c a b"
  shows "map f (js_sort c xs) = js_sort c' (map f xs)"
  by (induction xs) (simp_all add: js_sort_def map_js_insert [of c' f c, OF assms])

subsection \<open>The sticky pass\<close>

lemma or_number_sticky: "or_number (sticky p) 0 = sticky_priority p"
  by (simp add: or_number_def sticky_priority_def split: option.split)

lemma sticky_compare_le: "sticky_compare a b \<le> 0 \<longleftrightarrow> sticky_priority b \<le> sticky_priority a"
  by (simp add: sticky_compare_def or_number_sticky)

lemma sorted_sticky_pass:
  "sorted_wrt (\<lambda>a b. sticky_priority b \<le> sticky_priority a) (js_sort sticky_compare xs)"
proof -
  have "sorted_wrt (\<lambda>a b. sticky_compare a b \<le> 0) (js_sort sticky_compare xs)"
    by (rule sorted_wrt_js_sort) (simp_all add: sticky_compare_def)
  then show ?thesis by (simp only: sticky_compare_le)
qed

lemma sticky_pass_stable:
  "filter (\<lambda>p. sticky_priority p = s \<and> Q p) (js_sort sticky_compare xs)
   = filter (\<lambda>p. sticky_priority p = s \<and> Q p) xs"
  by (rule filter_js_sort) (simp add: sticky_compare_le)

subsection \<open>Chunking and the page count\<close>

lemma concat_chunk: "0 < n \<Longrightarrow> concat (chunk n xs) = xs"
proof (induction n xs rule: chunk.induct)
  case (1 n xs)
  show ?case
  proof (cases "xs = []")
    case True
    then show ?thesis by (simp add: chunk.simps)
  next
    case False
    with 1 have "concat (chunk n (drop n xs)) = drop n xs" by simp
    with False 1(2) show ?thesis by (subst chunk.simps) simp
  qed
qed

lemma map_chunk: "chunk n (map f xs) = map (map f) (chunk n xs)"
proof (induction n xs rule: chunk.induct)
  case (1 n xs)
  show ?case
  proof (cases "n = 0 \<or> xs = []")
    case True
    then show ?thesis by (auto simp: chunk.simps)
  next
    case False
    with 1 have "chunk n (map f (drop n xs)) = map (map f) (chunk n (drop n xs))"
      by (simp add: drop_map)
    with False show ?thesis
      by (subst chunk.simps, subst (2) chunk.simps) (simp add: take_map drop_map)
  qed
qed

lemma ceil_div_step:
  assumes "0 < n" "0 < m"
  shows "ceil_div m n = Suc (ceil_div (m - n) n)"
proof (cases "n \<le> m")
  case True
  then have "m + n - 1 = (m - n + n - 1) + n" using assms by arith
  then have "(m + n - 1) div n = ((m - n + n - 1) + n) div n" by (rule arg_cong)
  also have "\<dots> = Suc ((m - n + n - 1) div n)" using assms(1) by (simp only: div_add_self2)
  finally show ?thesis by (simp only: ceil_div_def)
next
  case False
  then have "m + n - 1 = (m - 1) + n" using assms by arith
  then have "(m + n - 1) div n = ((m - 1) + n) div n" by (rule arg_cong)
  also have "\<dots> = Suc ((m - 1) div n)" using assms(1) by (simp only: div_add_self2)
  also have "(m - 1) div n = 0" using False assms by simp
  finally have one: "ceil_div m n = Suc 0" by (simp only: ceil_div_def)
  have "m - n = 0" using False by simp
  then have "ceil_div (m - n) n = 0" using assms(1) by (simp add: ceil_div_def)
  with one show ?thesis by simp
qed

lemma length_chunk: "0 < n \<Longrightarrow> length (chunk n xs) = ceil_div (length xs) n"
proof (induction n xs rule: chunk.induct)
  case (1 n xs)
  show ?case
  proof (cases "xs = []")
    case True
    with 1(2) show ?thesis by (simp add: chunk.simps ceil_div_def)
  next
    case False
    with 1 have "length (chunk n (drop n xs)) = ceil_div (length xs - n) n" by simp
    with False 1(2) show ?thesis
      by (subst chunk.simps) (simp add: ceil_div_step)
  qed
qed

text \<open>The natural-number formula is the ceiling of the quotient.\<close>

lemma ceil_div_ceiling:
  assumes "0 < d"
  shows "int (ceil_div n d) = \<lceil>real n / real d\<rceil>"
proof -
  define q where "q = (n + d - 1) div d"
  have "q * d \<le> n + d - 1"
    by (simp add: q_def)
  then have lower: "q * d < n + d"
    using assms by arith
  have "n + d - 1 < d + q * d"
    unfolding q_def using assms by (rule dividend_less_div_times)
  then have upper: "n \<le> q * d"
    using assms by arith
  have "real n \<le> real (q * d)"
    using upper by (simp only: of_nat_le_iff)
  then have le: "real n / real d \<le> real q"
    using assms by (simp add: pos_divide_le_eq)
  have "real (q * d) < real (n + d)"
    using lower by (simp only: of_nat_less_iff)
  then have "(real q - 1) * real d < real n"
    by (simp add: algebra_simps)
  then have gt: "real q - 1 < real n / real d"
    using assms by (simp add: pos_less_divide_eq)
  have "\<lceil>real n / real d\<rceil> = int q"
    by (rule ceiling_unique) (use le gt in simp_all)
  then show ?thesis
    by (simp add: ceil_div_def q_def)
qed

subsection \<open>The paginator of the specification\<close>

lemma spec_pagination_Inr:
  assumes "spec_pagination base xs opts = Inr pages"
  shows "0 < perPage opts"
    and "pages = map (\<lambda>(i, c).
                \<lparr>items = c, index = i,
                 totalPages = ceil_div (length xs) (nat (perPage opts)),
                 path = page_path base (format opts) i,
                 layoutCandidates = layout opts,
                 extraData = data opts\<rparr>)
              (enumerate 1 (chunk (nat (perPage opts)) xs))"
  using assms by (auto simp: spec_pagination_def split: if_splits)

lemma spec_pagination_items:
  assumes "spec_pagination base xs opts = Inr pages"
  shows "map items pages = chunk (nat (perPage opts)) xs"
proof -
  have "map items pages = map snd (enumerate 1 (chunk (nat (perPage opts)) xs))"
    unfolding spec_pagination_Inr(2) [OF assms] by (simp add: case_prod_unfold comp_def)
  then show ?thesis by simp
qed

lemma spec_pagination_concat:
  assumes "spec_pagination base xs opts = Inr pages"
  shows "concat (map items pages) = xs"
  using spec_pagination_Inr(1) [OF assms]
  by (simp add: spec_pagination_items [OF assms] concat_chunk)

lemma spec_pagination_length:
  assumes "spec_pagination base xs opts = Inr pages"
  shows "length pages = ceil_div (length xs) (nat (perPage opts))"
proof -
  have "length pages = length (map items pages)" by simp
  also have "\<dots> = length (chunk (nat (perPage opts)) xs)"
    by (simp only: spec_pagination_items [OF assms])
  finally show ?thesis
    using spec_pagination_Inr(1) [OF assms] by (simp add: length_chunk)
qed

lemma spec_pagination_nth:
  assumes "spec_pagination base xs opts = Inr pages" and "k < length pages"
  shows "index (pages ! k) = Suc k"
    and "path (pages ! k) = page_path base (format opts) (Suc k)"
    and "totalPages (pages ! k) = ceil_div (length xs) (nat (perPage opts))"
    and "layoutCandidates (pages ! k) = layout opts"
    and "extraData (pages ! k) = data opts"
  using assms(2) unfolding spec_pagination_Inr(2) [OF assms(1)]
  by (simp_all add: nth_enumerate_eq)

subsection \<open>The shape of a run of the generator\<close>

lemma generator_cases:
  assumes "generator query_sort pagination config locals = Inr pages"
  obtains (empty) "pages = []"
      and "all_posts locals = None
           \<or> (\<exists>posts. all_posts locals = Some posts \<and> explorationsPosts posts = [])"
  | (paginated) posts ig sortedPosts opts
    where "all_posts locals = Some posts"
      and "explorationsPosts posts \<noteq> []"
      and "index_generator config = Some ig"
      and "query_sort (or_string (order_by ig) ''-date'') (explorationsPosts posts)
           = Inr sortedPosts"
      and "pagination ''explorations/'' (js_sort sticky_compare sortedPosts) opts = Inr pages"
      and "perPage opts = or_number (per_page ig) 10"
      and "format opts = or_string (pagination_dir config) ''page'' @ ''/%d/''"
  using assms unfolding generator_def
  by (auto split: option.splits if_splits sum.splits)

subsection \<open>The scenario of section 8, evaluated\<close>

lemma string_of_nat_2: "string_of_nat 2 = ''2''" "string_of_nat (Suc (Suc 0)) = ''2''"
  by code_simp+

lemma string_of_nat_examples:
  "string_of_nat 0 = ''0''" "string_of_nat 9 = ''9''" "string_of_nat 10 = ''10''"
  "string_of_nat 12 = ''12''" "string_of_nat 305 = ''305''"
  by code_simp+

text \<open>
  The other scenario of section 8: twelve items and a page size of 10 give a first page with
  the items 1 to 10 at the base and a second page with the items 11 and 12 at
  \<open>explorations/page/2/\<close>, the total being 2 on both.
\<close>

lemma spec_pagination_twelve:
  "spec_pagination ''explorations/'' [1, 2, 3, 4, 5, 6, 7, 8, 9, 10, 11, 12 :: nat]
     \<lparr>perPage = 10, layout = [''explorations'', ''index''],
      format = ''page/%d/'',
      data = [(''__explorations'', Flag True), (''subtitle'', Text ''Curiosity-driven dives'')]\<rparr>
   = Inr [page_of [1, 2, 3, 4, 5, 6, 7, 8, 9, 10] 1 2 ''explorations/'',
          page_of [11, 12] 2 2 ''explorations/page/2/'']"
  by (simp add: spec_pagination_def chunk.simps enumerate_simps ceil_div_def page_path_def
      string_of_nat_2 page_of_def)

lemma spec_sort_examples:
  "spec_sort ''-date'' [post_C, post_B, post_A] = Inr [post_A, post_B, post_C]"
  by (simp add: spec_sort_def parse_order_by_def field_value_def primary_compare_def
      three_way_def js_sort_def post_A_def post_B_def post_C_def)

text \<open>
  The item's own attributes can be named as well: by descending sticky priority B comes
  before A, and an item without a sticky value does not have the field.
\<close>

lemma spec_sort_attributes:
  "spec_sort ''-sticky'' [post_A, post_B] = Inr [post_B, post_A]"
  "spec_sort ''sticky'' [post_A, post_C] = Inl ConfigurationError"
  "spec_sort ''hidden'' [post_B, post_C] = Inr [post_C, post_B]"
  by (simp_all add: spec_sort_def parse_order_by_def field_value_def primary_compare_def
      three_way_def js_sort_def post_A_def post_B_def post_C_def)

lemma sticky_pass_examples:
  "js_sort sticky_compare [post_A, post_B, post_C] = [post_B, post_A, post_C]"
  by (simp add: js_sort_def sticky_compare_def or_number_def post_A_def post_B_def post_C_def)

lemma spec_pagination_examples:
  "spec_pagination ''explorations/'' [post_B, post_A, post_C]
     \<lparr>perPage = 2, layout = [''explorations'', ''index''],
      format = ''page/%d/'',
      data = [(''__explorations'', Flag True), (''subtitle'', Text ''Curiosity-driven dives'')]\<rparr>
   = Inr [page_of [post_B, post_A] 1 2 ''explorations/'',
          page_of [post_C] 2 2 ''explorations/page/2/'']"
  by (simp add: spec_pagination_def chunk.simps enumerate_simps ceil_div_def page_path_def
      string_of_nat_2 page_of_def)

lemma generator_examples:
  "generator spec_sort spec_pagination (site_config (Some 2))
     \<lparr>all_posts = Some [post_lowercase, post_C, post_uncategorised, post_B, post_other,
        post_empty_categories, post_A]\<rparr>
   = Inr [page_of [post_B, post_A] 1 2 ''explorations/'',
          page_of [post_C] 2 2 ''explorations/page/2/'']"
  by (simp add: generator_def explorationsPosts_examples site_config_def or_string_def
      or_number_def spec_sort_examples sticky_pass_examples spec_pagination_examples)

lemma explorationsPosts_scenario:
  "explorationsPosts [post_C, post_B, post_A] = [post_C, post_B, post_A]"
  by (simp add: explorationsPosts_def post_A_def post_B_def post_C_def)

subsection \<open>The order of the items\<close>

text \<open>
  C3. In the final order, the items of the pages concatenated in index order, an item with
  a strictly greater sticky priority (a missing one counting as 0) stands before every item
  with a smaller one, whatever the primary ordering did. The sticky pass is line 30 of the
  script; of the paginator only this is used: the pages it returns hold, in page order, the
  sequence it was given.
\<close>

theorem sticky_priority_dominates:
  assumes "\<And>xs opts pgs. pagination ''explorations/'' xs opts = Inr pgs
             \<Longrightarrow> concat (map items pgs) = xs"
    and "generator query_sort pagination config locals = Inr pages"
    and "i < length (concat (map items pages))"
    and "j < length (concat (map items pages))"
    and "sticky_priority (concat (map items pages) ! j)
         < sticky_priority (concat (map items pages) ! i)"
  shows "i < j"
  using assms(2)
proof (cases rule: generator_cases)
  case empty
  with assms(3) show ?thesis by simp
next
  case (paginated posts ig sortedPosts opts)
  define final where "final = concat (map items pages)"
  have "final = js_sort sticky_compare sortedPosts"
    unfolding final_def using paginated(5) by (rule assms(1))
  then have ordered: "sorted_wrt (\<lambda>a b. sticky_priority b \<le> sticky_priority a) final"
    by (simp only: sorted_sticky_pass)
  show ?thesis
  proof (rule ccontr)
    assume "\<not> i < j"
    then consider "j < i" | "j = i" by arith
    then have "sticky_priority (final ! i) \<le> sticky_priority (final ! j)"
    proof cases
      case 1
      with ordered assms(3) show ?thesis
        unfolding final_def [symmetric] by (simp add: sorted_wrt_iff_nth_less)
    next
      case 2
      then show ?thesis by simp
    qed
    with assms(5) show False
      unfolding final_def [symmetric] by simp
  qed
qed

theorem sticky_priority_dominates_witness:
  "generator spec_sort spec_pagination (site_config (Some 2))
     \<lparr>all_posts = Some [post_lowercase, post_C, post_uncategorised, post_B, post_other,
        post_empty_categories, post_A]\<rparr>
     = Inr [page_of [post_B, post_A] 1 2 ''explorations/'',
            page_of [post_C] 2 2 ''explorations/page/2/'']
   \<and> concat (map items [page_of [post_B, post_A] 1 2 ''explorations/'',
                          page_of [post_C] 2 2 ''explorations/page/2/''])
     = [post_B, post_A, post_C]
   \<and> sticky_priority ([post_B, post_A, post_C] ! 2) < sticky_priority ([post_B, post_A, post_C] ! 0)
   \<and> (0 :: nat) < 2"
proof -
  let ?pages = "[page_of [post_B, post_A] 1 2 ''explorations/'',
                 page_of [post_C] 2 2 ''explorations/page/2/'']"
  have final: "concat (map items ?pages) = [post_B, post_A, post_C]"
    by (simp add: page_of_def)
  have pinned: "sticky_priority ([post_B, post_A, post_C] ! 2)
                < sticky_priority ([post_B, post_A, post_C] ! 0)"
    by (simp add: sticky_priority_def post_B_def post_C_def)
  have "(0 :: nat) < 2"
    using pinned
    by (intro sticky_priority_dominates [of spec_pagination spec_sort _ _ ?pages 0 2,
          OF spec_pagination_concat generator_examples])
      (simp_all only: final, simp_all)
  with generator_examples final pinned show ?thesis by blast
qed

subsection \<open>The page size\<close>




subsection \<open>Pagination\<close>

lemma generator_scenario:
  "generator spec_sort spec_pagination (site_config (Some 2))
     \<lparr>all_posts = Some [post_C, post_B, post_A]\<rparr>
   = Inr [page_of [post_B, post_A] 1 2 ''explorations/'',
          page_of [post_C] 2 2 ''explorations/page/2/'']"
  by (simp add: generator_def site_config_def or_string_def or_number_def
      explorationsPosts_scenario spec_sort_examples sticky_pass_examples
      spec_pagination_examples)

lemma spec_sort_Inr:
  assumes "spec_sort orderBy xs = Inr ys"
  shows "ys = js_sort (primary_compare orderBy) xs"
  using assms by (simp add: spec_sort_def split: if_splits)

lemma generator_paginates:
  assumes "all_posts locals = Some posts"
    and "explorationsPosts posts \<noteq> []"
    and "index_generator config = Some ig"
    and "query_sort (or_string (order_by ig) ''-date'') (explorationsPosts posts) = Inr sortedPosts"
  shows "generator query_sort pagination config locals
         = pagination ''explorations/'' (js_sort sticky_compare sortedPosts)
             \<lparr>perPage = or_number (per_page ig) 10,
              layout = [''explorations'', ''index''],
              format = or_string (pagination_dir config) ''page'' @ ''/%d/'',
              data = [(''__explorations'', Flag True),
                      (''subtitle'', Text ''Curiosity-driven dives'')]\<rparr>"
  using assms by (simp add: generator_def)

text \<open>
  C1. For a positive page size (the configured one, or the default 10 in its place) and a
  primary ordering that succeeds, the generator produces pages, and the items of these
  pages, concatenated in page order, are exactly the filtered and ordered sequence: the
  primary ordering's result after the sticky pass. As multisets the concatenation and the
  selector's output agree, so every filtered item occurs exactly as often as it was
  selected, none is lost and none is repeated.
\<close>

theorem pages_reproduce_ordered_sequence:
  assumes "all_posts locals = Some posts"
    and "index_generator config = Some ig"
    and "0 < or_number (per_page ig) 10"
    and "spec_sort (or_string (order_by ig) ''-date'') (explorationsPosts posts) = Inr sortedPosts"
  shows "\<exists>pages. generator spec_sort spec_pagination config locals = Inr pages
           \<and> concat (map items pages) = js_sort sticky_compare sortedPosts
           \<and> mset (concat (map items pages)) = mset (explorationsPosts posts)"
proof -
  have sorted: "sortedPosts = js_sort (primary_compare (or_string (order_by ig) ''-date''))
                               (explorationsPosts posts)"
    using assms(4) by (rule spec_sort_Inr)
  then have same: "mset (js_sort sticky_compare sortedPosts) = mset (explorationsPosts posts)"
    by (simp add: mset_js_sort)
  show ?thesis
  proof (cases "explorationsPosts posts = []")
    case True
    then have "generator spec_sort spec_pagination config locals = Inr []"
      using assms(1) by (simp add: generator_def)
    moreover have "js_sort sticky_compare sortedPosts = []"
      using True sorted by (simp add: js_sort_def)
    ultimately show ?thesis using True by simp
  next
    case False
    let ?opts = "\<lparr>perPage = or_number (per_page ig) 10,
              layout = [''explorations'', ''index''],
              format = or_string (pagination_dir config) ''page'' @ ''/%d/'',
              data = [(''__explorations'', Flag True),
                      (''subtitle'', Text ''Curiosity-driven dives'')]\<rparr>"
    have run: "generator spec_sort spec_pagination config locals
          = spec_pagination ''explorations/'' (js_sort sticky_compare sortedPosts) ?opts"
      using assms(1) False assms(2,4) by (rule generator_paginates)
    obtain pages
      where pages: "spec_pagination ''explorations/'' (js_sort sticky_compare sortedPosts) ?opts
                    = Inr pages"
      using assms(3) by (simp add: spec_pagination_def)
    then have "concat (map items pages) = js_sort sticky_compare sortedPosts"
      by (rule spec_pagination_concat)
    with run pages same show ?thesis by simp
  qed
qed

theorem pages_reproduce_ordered_sequence_witness:
  "spec_sort ''-date'' (explorationsPosts [post_C, post_B, post_A]) = Inr [post_A, post_B, post_C]
   \<and> generator spec_sort spec_pagination (site_config (Some 2))
        \<lparr>all_posts = Some [post_C, post_B, post_A]\<rparr>
      = Inr [page_of [post_B, post_A] 1 2 ''explorations/'',
             page_of [post_C] 2 2 ''explorations/page/2/'']
   \<and> concat (map items [page_of [post_B, post_A] 1 2 ''explorations/'',
                          page_of [post_C] 2 2 ''explorations/page/2/''])
      = js_sort sticky_compare [post_A, post_B, post_C]
   \<and> mset [post_B, post_A, post_C] = mset (explorationsPosts [post_C, post_B, post_A])"
proof -
  let ?pages = "[page_of [post_B, post_A] 1 2 ''explorations/'',
                 page_of [post_C] 2 2 ''explorations/page/2/'']"
  have primary: "spec_sort ''-date'' (explorationsPosts [post_C, post_B, post_A])
                 = Inr [post_A, post_B, post_C]"
    by (simp add: explorationsPosts_scenario spec_sort_examples)
  have run: "generator spec_sort spec_pagination (site_config (Some 2))
        \<lparr>all_posts = Some [post_C, post_B, post_A]\<rparr> = Inr ?pages"
    by (rule generator_scenario)
  have items: "concat (map items ?pages) = [post_B, post_A, post_C]"
    by (simp add: page_of_def)
  obtain pages where "generator spec_sort spec_pagination (site_config (Some 2))
        \<lparr>all_posts = Some [post_C, post_B, post_A]\<rparr> = Inr pages"
    and "concat (map items pages) = js_sort sticky_compare [post_A, post_B, post_C]"
    and "mset (concat (map items pages)) = mset (explorationsPosts [post_C, post_B, post_A])"
    using pages_reproduce_ordered_sequence
      [of "\<lparr>all_posts = Some [post_C, post_B, post_A]\<rparr>" "[post_C, post_B, post_A]"
          "site_config (Some 2)" "\<lparr>order_by = None, per_page = Some 2\<rparr>"
          "[post_A, post_B, post_C]"]
      primary
    by (auto simp: site_config_def or_number_def or_string_def)
  with run items primary show ?thesis by simp
qed

text \<open>
  C6. Every page the generator produces carries the same total, the ceiling of the number
  of filtered items divided by the page size in use (the configured one, or the default 10
  in its place); the number of pages is that total; with no filtered item no page is
  produced.
\<close>

theorem total_pages_is_ceiling:
  assumes "generator spec_sort spec_pagination config locals = Inr pages"
    and "all_posts locals = Some posts"
    and "index_generator config = Some ig"
  shows "(\<forall>pg \<in> set pages.
            int (totalPages pg)
            = \<lceil>real (length (explorationsPosts posts)) / real_of_int (or_number (per_page ig) 10)\<rceil>)
    \<and> int (length pages)
        = \<lceil>real (length (explorationsPosts posts)) / real_of_int (or_number (per_page ig) 10)\<rceil>
    \<and> (length (explorationsPosts posts) = 0 \<longrightarrow> pages = [])"
  using assms(1)
proof (cases rule: generator_cases)
  case empty
  with assms(2) show ?thesis by auto
next
  case (paginated posts' ig' sortedPosts opts)
  then have same: "posts' = posts" "ig' = ig"
    using assms(2,3) by simp_all
  let ?n = "length (explorationsPosts posts)"
  let ?pp = "or_number (per_page ig) 10"
  have positive: "0 < ?pp"
    using spec_pagination_Inr(1) [OF paginated(5)] paginated(6) same by simp
  have "sortedPosts = js_sort (primary_compare (or_string (order_by ig) ''-date''))
                        (explorationsPosts posts)"
    using paginated(4) same by (simp add: spec_sort_Inr)
  then have count: "length (js_sort sticky_compare sortedPosts) = ?n"
    by (simp add: length_js_sort)
  have "int (ceil_div ?n (nat ?pp)) = \<lceil>real ?n / real (nat ?pp)\<rceil>"
    using positive by (intro ceil_div_ceiling) simp
  then have ceil: "int (ceil_div ?n (nat ?pp)) = \<lceil>real ?n / real_of_int ?pp\<rceil>"
    using positive by simp
  have len: "length pages = ceil_div ?n (nat ?pp)"
    using spec_pagination_length [OF paginated(5)] count paginated(6) same by simp
  have "totalPages pg = ceil_div ?n (nat ?pp)" if "pg \<in> set pages" for pg
  proof -
    from that obtain k where "k < length pages" "pg = pages ! k"
      by (auto simp: in_set_conv_nth)
    then show ?thesis
      using spec_pagination_nth(3) [OF paginated(5)] count paginated(6) same by simp
  qed
  with ceil len paginated(2) same show ?thesis by simp
qed

theorem total_pages_is_ceiling_witness:
  "generator spec_sort spec_pagination (site_config (Some 2))
        \<lparr>all_posts = Some [post_C, post_B, post_A]\<rparr>
      = Inr [page_of [post_B, post_A] 1 2 ''explorations/'',
             page_of [post_C] 2 2 ''explorations/page/2/'']
   \<and> int (totalPages (page_of [post_B, post_A] 1 2 ''explorations/'')) = \<lceil>(3 :: real) / 2\<rceil>
   \<and> int (totalPages (page_of [post_C] 2 2 ''explorations/page/2/'')) = \<lceil>(3 :: real) / 2\<rceil>
   \<and> int (length [page_of [post_B, post_A] 1 2 ''explorations/'',
                   page_of [post_C] 2 2 ''explorations/page/2/'']) = \<lceil>(3 :: real) / 2\<rceil>"
proof -
  have run: "generator spec_sort spec_pagination (site_config (Some 2))
        \<lparr>all_posts = Some [post_C, post_B, post_A]\<rparr>
      = Inr [page_of [post_B, post_A] 1 2 ''explorations/'',
             page_of [post_C] 2 2 ''explorations/page/2/'']"
    by (rule generator_scenario)
  show ?thesis
    using run total_pages_is_ceiling
      [OF run, of "[post_C, post_B, post_A]" "\<lparr>order_by = None, per_page = Some 2\<rparr>"]
    by (simp add: site_config_def or_number_def explorationsPosts_scenario)
qed

lemma render_format_Cons:
  "CHR ''%'' \<noteq> c \<Longrightarrow> render_format (c # cs) i = c # render_format cs i"
  by (cases cs) auto

lemma render_format_directory:
  assumes "CHR ''%'' \<notin> set dir"
  shows "render_format (dir @ ''/%d/'') i = dir @ ''/'' @ string_of_nat i @ ''/''"
  using assms by (induction dir) (simp_all add: render_format_Cons)

lemma generator_directory:
  "generator spec_sort spec_pagination (directory_config (Some ''archive''))
     \<lparr>all_posts = Some [post_C, post_B, post_A]\<rparr>
   = Inr [page_of [post_B, post_A] 1 2 ''explorations/'',
          page_of [post_C] 2 2 ''explorations/archive/2/'']"
  by (simp add: generator_def directory_config_def or_string_def or_number_def
      explorationsPosts_scenario spec_sort_examples sticky_pass_examples
      spec_pagination_def chunk.simps enumerate_simps ceil_div_def page_path_def
      string_of_nat_2 page_of_def)

text \<open>
  C7, as the script has it. The first page's address is the base \<open>explorations/\<close>
  unmodified. The page with index \<open>i\<close>, for \<open>i\<close> from 2 on, has the address formed of the
  base, the pagination directory, a slash, the decimal numeral of \<open>i\<close> and a slash, the
  directory being the configured one, or \<open>page\<close> when none or the empty one is configured;
  this holds for a directory without a percent sign. Line 37 splices the directory into the
  format string, so a directory that holds a format directive is read as part of the format
  and not copied. The sort method is arbitrary here.
\<close>

theorem page_addresses:
  assumes "generator query_sort spec_pagination config locals = Inr pages"
    and "(pagination_dir config = Some dir \<and> dir \<noteq> [])
         \<or> ((pagination_dir config = None \<or> pagination_dir config = Some []) \<and> dir = ''page'')"
    and "CHR ''%'' \<notin> set dir"
  shows "(pages \<noteq> [] \<longrightarrow> index (pages ! 0) = 1 \<and> path (pages ! 0) = ''explorations/'')
    \<and> (\<forall>i. 2 \<le> i \<and> i \<le> length pages \<longrightarrow>
          index (pages ! (i - 1)) = i
          \<and> path (pages ! (i - 1)) = ''explorations/'' @ dir @ ''/'' @ string_of_nat i @ ''/'')"
  using assms(1)
proof (cases rule: generator_cases)
  case empty
  then show ?thesis by simp
next
  case (paginated posts ig sortedPosts opts)
  have "or_string (pagination_dir config) ''page'' = dir"
    using assms(2) by (auto simp: or_string_def)
  with paginated(7) have format: "format opts = dir @ ''/%d/''"
    by simp
  have first: "index (pages ! 0) = 1 \<and> path (pages ! 0) = ''explorations/''" if "pages \<noteq> []"
    using that spec_pagination_nth(1,2) [OF paginated(5), of 0]
    by (simp add: page_path_def)
  have later: "index (pages ! (i - 1)) = i
          \<and> path (pages ! (i - 1)) = ''explorations/'' @ dir @ ''/'' @ string_of_nat i @ ''/''"
    if "2 \<le> i" "i \<le> length pages" for i
  proof -
    from that have "i - 1 < length pages" "Suc (i - 1) = i" "i \<noteq> 1" by arith+
    then show ?thesis
      using spec_pagination_nth(1,2) [OF paginated(5), of "i - 1"] format
      by (simp add: page_path_def render_format_directory [OF assms(3)])
  qed
  from first later show ?thesis by blast
qed

text \<open>
  Two runs: with the directory \<open>archive\<close> configured the second page is at
  \<open>explorations/archive/2/\<close>, with none configured at \<open>explorations/page/2/\<close>.
\<close>

theorem page_addresses_witness:
  "generator spec_sort spec_pagination (directory_config (Some ''archive''))
        \<lparr>all_posts = Some [post_C, post_B, post_A]\<rparr>
      = Inr [page_of [post_B, post_A] 1 2 ''explorations/'',
             page_of [post_C] 2 2 ''explorations/archive/2/'']
   \<and> path ([page_of [post_B, post_A] 1 2 ''explorations/'',
             page_of [post_C] 2 2 ''explorations/archive/2/''] ! 0) = ''explorations/''
   \<and> path ([page_of [post_B, post_A] 1 2 ''explorations/'',
             page_of [post_C] 2 2 ''explorations/archive/2/''] ! (2 - 1))
      = ''explorations/'' @ ''archive'' @ ''/'' @ string_of_nat 2 @ ''/''
   \<and> ''explorations/'' @ ''archive'' @ ''/'' @ string_of_nat 2 @ ''/''
      = ''explorations/archive/2/''
   \<and> generator spec_sort spec_pagination (site_config (Some 2))
        \<lparr>all_posts = Some [post_C, post_B, post_A]\<rparr>
      = Inr [page_of [post_B, post_A] 1 2 ''explorations/'',
             page_of [post_C] 2 2 ''explorations/page/2/'']
   \<and> path ([page_of [post_B, post_A] 1 2 ''explorations/'',
             page_of [post_C] 2 2 ''explorations/page/2/''] ! (2 - 1))
      = ''explorations/'' @ ''page'' @ ''/'' @ string_of_nat 2 @ ''/''"
proof -
  let ?configured = "[page_of [post_B, post_A] 1 2 ''explorations/'',
                      page_of [post_C] 2 2 ''explorations/archive/2/'']"
  let ?default = "[page_of [post_B, post_A] 1 2 ''explorations/'',
                   page_of [post_C] 2 2 ''explorations/page/2/'']"
  have dir: "(pagination_dir (directory_config (Some ''archive'')) = Some ''archive''
              \<and> ''archive'' \<noteq> [])
             \<or> ((pagination_dir (directory_config (Some ''archive'')) = None
                  \<or> pagination_dir (directory_config (Some ''archive'')) = Some [])
                 \<and> ''archive'' = ''page'')"
    by (simp add: directory_config_def)
  have no_directive: "CHR ''%'' \<notin> set ''archive''"
    by simp
  have "?configured \<noteq> [] \<longrightarrow> index (?configured ! 0) = 1
          \<and> path (?configured ! 0) = ''explorations/''"
    and "\<forall>i. 2 \<le> i \<and> i \<le> length ?configured \<longrightarrow>
          index (?configured ! (i - 1)) = i
          \<and> path (?configured ! (i - 1))
            = ''explorations/'' @ ''archive'' @ ''/'' @ string_of_nat i @ ''/''"
    using page_addresses [OF generator_directory dir no_directive] by blast+
  then have configured: "path (?configured ! 0) = ''explorations/''"
    "path (?configured ! (2 - 1)) = ''explorations/'' @ ''archive'' @ ''/'' @ string_of_nat 2 @ ''/''"
    by simp_all
  have default_dir: "(pagination_dir (site_config (Some 2)) = Some ''page'' \<and> ''page'' \<noteq> [])
             \<or> ((pagination_dir (site_config (Some 2)) = None
                  \<or> pagination_dir (site_config (Some 2)) = Some [])
                 \<and> ''page'' = ''page'')"
    by (simp add: site_config_def)
  have "\<forall>i. 2 \<le> i \<and> i \<le> length ?default \<longrightarrow>
          index (?default ! (i - 1)) = i
          \<and> path (?default ! (i - 1))
            = ''explorations/'' @ ''page'' @ ''/'' @ string_of_nat i @ ''/''"
    using page_addresses [OF generator_scenario default_dir] by simp
  then have default: "path (?default ! (2 - 1))
                      = ''explorations/'' @ ''page'' @ ''/'' @ string_of_nat 2 @ ''/''"
    by simp
  have "''explorations/'' @ ''archive'' @ ''/'' @ string_of_nat 2 @ ''/''
        = ''explorations/archive/2/''"
    by (simp add: string_of_nat_2)
  with configured default generator_directory generator_scenario show ?thesis by blast
qed

text \<open>
  The claim as the specification states it fails for the directory \<open>%d\<close>: the page number
  takes the place of the directory, and the second page is at \<open>explorations/2/%d/\<close>, not at
  \<open>explorations/%d/2/\<close>.
\<close>

theorem page_addresses_counterexample:
  "generator spec_sort spec_pagination (directory_config (Some ''%d''))
        \<lparr>all_posts = Some [post_C, post_B, post_A]\<rparr>
      = Inr [page_of [post_B, post_A] 1 2 ''explorations/'',
             page_of [post_C] 2 2 ''explorations/2/%d/'']
   \<and> path ([page_of [post_B, post_A] 1 2 ''explorations/'',
             page_of [post_C] 2 2 ''explorations/2/%d/''] ! (2 - 1))
      \<noteq> ''explorations/'' @ ''%d'' @ ''/'' @ string_of_nat 2 @ ''/''"
  by (simp add: generator_def directory_config_def or_string_def or_number_def
      explorationsPosts_scenario spec_sort_examples sticky_pass_examples
      spec_pagination_def chunk.simps enumerate_simps ceil_div_def page_path_def
      string_of_nat_2 page_of_def)

subsection \<open>Stability\<close>

lemma primary_compare_same_key:
  assumes "primary_key orderBy a = primary_key orderBy b"
  shows "primary_compare orderBy a b = 0"
proof -
  obtain d f where parsed: "parse_order_by orderBy = (d, f)"
    by (cases "parse_order_by orderBy")
  with assms have "field_value f a = field_value f b"
    by (simp add: primary_key_def)
  moreover have "natural_compare u u = 0" for u :: "'a js_value option"
  proof (cases u)
    case None
    then show ?thesis by simp
  next
    case (Some v)
    then show ?thesis by (cases v) (simp_all add: three_way_def)
  qed
  ultimately have "natural_compare (field_value f a) (field_value f b) = 0"
    by simp
  with parsed show ?thesis
    by (simp add: primary_compare_def)
qed

lemma primary_pass_stable:
  assumes "spec_sort orderBy xs = Inr ys"
  shows "filter (\<lambda>p. primary_key orderBy p = k) ys = filter (\<lambda>p. primary_key orderBy p = k) xs"
  unfolding spec_sort_Inr [OF assms]
  by (rule filter_js_sort) (simp add: primary_compare_same_key)

text \<open>
  C8. Both passes are stable. The items that share a sticky priority (a missing one
  counting as 0) and a primary-sort key form the same sequence in the final order, the
  pages concatenated in index order, as in the selector's output: any two of them keep
  their relative order. The sticky pass is line 30 of the script. Of the collection's sort
  method the stability the specification prescribes is assumed, with respect to whatever
  key it orders by; of the paginator, that its pages hold the sequence it was given. The
  primary ordering of the specification is stable in this sense (\<open>primary_pass_stable\<close>).
\<close>

theorem ordering_is_stable:
  assumes "\<And>xs opts pgs. pagination ''explorations/'' xs opts = Inr pgs
             \<Longrightarrow> concat (map items pgs) = xs"
    and "\<And>xs ys k. query_sort (or_string (order_by ig) ''-date'') xs = Inr ys
             \<Longrightarrow> filter (\<lambda>p. key p = k) ys = filter (\<lambda>p. key p = k) xs"
    and "generator query_sort pagination config locals = Inr pages"
    and "all_posts locals = Some posts"
    and "index_generator config = Some ig"
  shows "filter (\<lambda>p. sticky_priority p = s \<and> key p = k) (concat (map items pages))
         = filter (\<lambda>p. sticky_priority p = s \<and> key p = k) (explorationsPosts posts)"
  using assms(3)
proof (cases rule: generator_cases)
  case empty
  with assms(4) show ?thesis by auto
next
  case (paginated posts' ig' sortedPosts opts)
  then have same: "posts' = posts" "ig' = ig"
    using assms(4,5) by simp_all
  have final: "concat (map items pages) = js_sort sticky_compare sortedPosts"
    using paginated(5) by (rule assms(1))
  have primary: "filter (\<lambda>p. key p = k) sortedPosts
                 = filter (\<lambda>p. key p = k) (explorationsPosts posts)"
    using paginated(4) same by (intro assms(2)) simp
  have "filter (\<lambda>p. sticky_priority p = s \<and> key p = k) (js_sort sticky_compare sortedPosts)
        = filter (\<lambda>p. sticky_priority p = s \<and> key p = k) sortedPosts"
    by (rule sticky_pass_stable)
  also have "\<dots> = filter (\<lambda>p. sticky_priority p = s) (filter (\<lambda>p. key p = k) sortedPosts)"
    by (simp add: conj_commute)
  also have "\<dots> = filter (\<lambda>p. sticky_priority p = s)
                     (filter (\<lambda>p. key p = k) (explorationsPosts posts))"
    by (simp only: primary)
  also have "\<dots> = filter (\<lambda>p. sticky_priority p = s \<and> key p = k) (explorationsPosts posts)"
    by (simp add: conj_commute)
  finally show ?thesis
    by (simp only: final)
qed

lemma generator_twins:
  "generator spec_sort spec_pagination (site_config None)
     \<lparr>all_posts = Some [post_C, post_D, post_B, post_A]\<rparr>
   = Inr [page_of [post_B, post_D, post_A, post_C] 1 1 ''explorations/'']"
proof -
  have "explorationsPosts [post_C, post_D, post_B, post_A] = [post_C, post_D, post_B, post_A]"
    by (simp add: explorationsPosts_def post_A_def post_B_def post_C_def post_D_def)
  moreover have "spec_sort ''-date'' [post_C, post_D, post_B, post_A]
                 = Inr [post_D, post_A, post_B, post_C]"
    by (simp add: spec_sort_def parse_order_by_def field_value_def primary_compare_def
        three_way_def js_sort_def post_A_def post_B_def post_C_def post_D_def)
  moreover have "js_sort sticky_compare [post_D, post_A, post_B, post_C]
                 = [post_B, post_D, post_A, post_C]"
    by (simp add: js_sort_def sticky_compare_def or_number_def
        post_A_def post_B_def post_C_def post_D_def)
  ultimately show ?thesis
    by (simp add: generator_def site_config_def or_string_def or_number_def
        spec_pagination_def chunk.simps enumerate_simps ceil_div_def page_path_def page_of_def)
qed

theorem ordering_is_stable_witness:
  "generator spec_sort spec_pagination (site_config None)
     \<lparr>all_posts = Some [post_C, post_D, post_B, post_A]\<rparr>
     = Inr [page_of [post_B, post_D, post_A, post_C] 1 1 ''explorations/'']
   \<and> filter (\<lambda>p. sticky_priority p = 0 \<and> primary_key ''-date'' p = Some (JProperty 30))
        (concat (map items [page_of [post_B, post_D, post_A, post_C] 1 1 ''explorations/'']))
     = filter (\<lambda>p. sticky_priority p = 0 \<and> primary_key ''-date'' p = Some (JProperty 30))
        (explorationsPosts [post_C, post_D, post_B, post_A])
   \<and> filter (\<lambda>p. sticky_priority p = 0 \<and> primary_key ''-date'' p = Some (JProperty 30))
        [post_B, post_D, post_A, post_C] = [post_D, post_A]"
proof -
  have twins: "filter (\<lambda>p. sticky_priority p = 0 \<and> primary_key ''-date'' p = Some (JProperty 30))
        [post_B, post_D, post_A, post_C] = [post_D, post_A]"
    by (simp add: sticky_priority_def primary_key_def parse_order_by_def field_value_def
        post_A_def post_B_def post_C_def post_D_def)
  have default: "or_string (order_by \<lparr>order_by = None, per_page = None\<rparr>) ''-date'' = ''-date''"
    by (simp add: or_string_def)
  have "filter (\<lambda>p. sticky_priority p = 0 \<and> primary_key ''-date'' p = Some (JProperty 30))
        (concat (map items [page_of [post_B, post_D, post_A, post_C] 1 1 ''explorations/'']))
     = filter (\<lambda>p. sticky_priority p = 0 \<and> primary_key ''-date'' p = Some (JProperty 30))
        (explorationsPosts [post_C, post_D, post_B, post_A])"
  proof (rule ordering_is_stable
      [where pagination = spec_pagination and query_sort = spec_sort
         and ig = "\<lparr>order_by = None, per_page = None\<rparr>" and config = "site_config None"])
    show "concat (map items pgs) = xs"
      if "spec_pagination ''explorations/'' xs opts = Inr pgs"
      for xs :: "nat post list" and opts pgs
      using that by (rule spec_pagination_concat)
    show "filter (\<lambda>p. primary_key ''-date'' p = k) ys = filter (\<lambda>p. primary_key ''-date'' p = k) xs"
      if "spec_sort (or_string (order_by \<lparr>order_by = None, per_page = None\<rparr>) ''-date'') xs
          = Inr ys"
      for xs ys :: "nat post list" and k
      using that unfolding default by (rule primary_pass_stable)
    show "generator spec_sort spec_pagination (site_config None)
            \<lparr>all_posts = Some [post_C, post_D, post_B, post_A]\<rparr>
          = Inr [page_of [post_B, post_D, post_A, post_C] 1 1 ''explorations/'']"
      by (rule generator_twins)
    show "all_posts \<lparr>all_posts = Some [post_C, post_D, post_B, post_A]\<rparr>
          = Some [post_C, post_D, post_B, post_A]"
      by simp
    show "index_generator (site_config None) = Some \<lparr>order_by = None, per_page = None\<rparr>"
      by (simp add: site_config_def)
  qed
  with generator_twins twins show ?thesis by blast
qed

subsection \<open>The hidden flag\<close>

lemma explorationsPosts_hidden:
  "explorationsPosts (map (\<lambda>p. p\<lparr>hidden := h p\<rparr>) posts)
   = map (\<lambda>p. p\<lparr>hidden := h p\<rparr>) (explorationsPosts posts)"
  by (simp add: explorationsPosts_def filter_map comp_def)

lemma explorationsPosts_without_hidden:
  "explorationsPosts (map without_hidden posts) = map without_hidden (explorationsPosts posts)"
  unfolding without_hidden_def by (rule explorationsPosts_hidden)

lemma sticky_pass_without_hidden:
  "js_sort sticky_compare (map without_hidden xs) = map without_hidden (js_sort sticky_compare xs)"
  by (rule map_js_sort [symmetric]) (simp add: sticky_compare_def without_hidden_def)

text \<open>
  The primary ordering of the specification looks at the hidden flag when, and only when,
  the option names the field \<open>hidden\<close>; its paginator never does.
\<close>

lemma spec_sort_without_hidden:
  assumes "snd (parse_order_by orderBy) \<noteq> ''hidden''"
  shows "spec_sort orderBy (map without_hidden xs)
   = map_sum id (map without_hidden) (spec_sort orderBy xs)"
proof -
  obtain d f where parsed: "parse_order_by orderBy = (d, f)"
    by (cases "parse_order_by orderBy")
  with assms have "f \<noteq> ''hidden''"
    by simp
  then have key: "field_value f (without_hidden p) = field_value f p" for p :: "'a post"
    by (simp add: field_value_def without_hidden_def)
  have "js_sort (primary_compare orderBy) (map without_hidden xs)
        = map without_hidden (js_sort (primary_compare orderBy) xs)"
    by (rule map_js_sort [symmetric]) (simp add: primary_compare_def parsed key)
  then show ?thesis
    by (simp add: spec_sort_def list_ex_iff parsed key)
qed

lemma enumerate_map:
  "enumerate n (map f xs) = map (\<lambda>q. (fst q, f (snd q))) (enumerate n xs)"
  by (induction xs arbitrary: n) simp_all

lemma spec_pagination_map:
  "spec_pagination base (map f xs) opts
   = map_sum id (map (map_page f)) (spec_pagination base xs opts)"
  by (simp add: spec_pagination_def map_chunk enumerate_map map_page_def
      case_prod_unfold comp_def)

text \<open>
  The script itself: with a sort method and a paginator that do not look at the flag, the
  generator does not either.
\<close>

lemma generator_without_hidden:
  assumes "\<And>ig xs. index_generator config = Some ig \<Longrightarrow>
             query_sort (or_string (order_by ig) ''-date'') (map without_hidden xs)
             = map_sum id (map without_hidden)
                 (query_sort (or_string (order_by ig) ''-date'') xs)"
    and "\<And>xs opts. pagination ''explorations/'' (map without_hidden xs) opts
             = map_sum id (map (map_page without_hidden)) (pagination ''explorations/'' xs opts)"
  shows "generator query_sort pagination config \<lparr>all_posts = Some (map without_hidden posts)\<rparr>
         = map_sum id (map (map_page without_hidden))
             (generator query_sort pagination config \<lparr>all_posts = Some posts\<rparr>)"
proof (cases "explorationsPosts posts = []")
  case True
  then show ?thesis
    by (simp add: generator_def explorationsPosts_without_hidden)
next
  case False
  show ?thesis
  proof (cases "index_generator config")
    case None
    with False show ?thesis
      by (simp add: generator_def explorationsPosts_without_hidden)
  next
    case (Some ig)
    show ?thesis
    proof (cases "query_sort (or_string (order_by ig) ''-date'') (explorationsPosts posts)")
      case (Inl e)
      with False Some show ?thesis
        by (simp add: generator_def explorationsPosts_without_hidden assms(1) [OF Some])
    next
      case (Inr sortedPosts)
      with False Some show ?thesis
        by (simp add: generator_def explorationsPosts_without_hidden assms(1) [OF Some]
            assms(2) sticky_pass_without_hidden)
    qed
  qed
qed

lemma order_by_field_not_hidden:
  assumes "\<And>s. order_by ig = Some s \<Longrightarrow> s \<noteq> ''hidden'' \<and> s \<noteq> ''-hidden''"
  shows "snd (parse_order_by (or_string (order_by ig) ''-date'')) \<noteq> ''hidden''"
proof (cases "order_by ig")
  case None
  then show ?thesis
    by (simp add: or_string_def parse_order_by_def)
next
  case (Some s)
  with assms have "s \<noteq> ''hidden''" "s \<noteq> ''-hidden''"
    by simp_all
  with Some show ?thesis
    by (cases s) (auto simp: or_string_def parse_order_by_def)
qed

text \<open>
  C9, as the pipeline has it. The script never reads the hidden flag; the primary ordering
  reads the field the configuration names. When the configured \<open>order_by\<close> is neither
  \<open>hidden\<close> nor \<open>-hidden\<close>, two collections that differ in the hidden flags of their items
  only yield the same pages: the same number of pages with the same indices, totals,
  addresses, layouts and extra data, carrying the same items at the same places, the items'
  own hidden flags apart. The selector treats an item whatever its flag says, under every
  configuration: changing the flags and selecting is selecting and changing the flags.
\<close>

theorem hidden_flag_only_through_order_by:
  assumes "\<And>ig s. index_generator config = Some ig \<Longrightarrow> order_by ig = Some s
             \<Longrightarrow> s \<noteq> ''hidden'' \<and> s \<noteq> ''-hidden''"
    and "map without_hidden posts = map without_hidden posts'"
  shows "map_sum id (map (map_page without_hidden))
           (generator spec_sort spec_pagination config \<lparr>all_posts = Some posts\<rparr>)
         = map_sum id (map (map_page without_hidden))
           (generator spec_sort spec_pagination config \<lparr>all_posts = Some posts'\<rparr>)
    \<and> explorationsPosts (map (\<lambda>p. p\<lparr>hidden := h p\<rparr>) posts)
        = map (\<lambda>p. p\<lparr>hidden := h p\<rparr>) (explorationsPosts posts)"
proof -
  have blind: "spec_sort (or_string (order_by ig) ''-date'') (map without_hidden xs)
             = map_sum id (map without_hidden) (spec_sort (or_string (order_by ig) ''-date'') xs)"
    if "index_generator config = Some ig" for ig and xs :: "'a post list"
    using assms(1) [OF that] by (intro spec_sort_without_hidden order_by_field_not_hidden)
  have erase: "generator spec_sort spec_pagination config
                 \<lparr>all_posts = Some (map without_hidden xs)\<rparr>
               = map_sum id (map (map_page without_hidden))
                   (generator spec_sort spec_pagination config \<lparr>all_posts = Some xs\<rparr>)"
    for xs :: "'a post list"
    by (rule generator_without_hidden) (simp_all add: blind spec_pagination_map)
  have "map_sum id (map (map_page without_hidden))
           (generator spec_sort spec_pagination config \<lparr>all_posts = Some posts\<rparr>)
        = generator spec_sort spec_pagination config
            \<lparr>all_posts = Some (map without_hidden posts)\<rparr>"
    by (rule erase [symmetric])
  also have "\<dots> = generator spec_sort spec_pagination config
                     \<lparr>all_posts = Some (map without_hidden posts')\<rparr>"
    by (simp only: assms(2))
  also have "\<dots> = map_sum id (map (map_page without_hidden))
           (generator spec_sort spec_pagination config \<lparr>all_posts = Some posts'\<rparr>)"
    by (rule erase)
  finally show ?thesis
    by (simp add: explorationsPosts_hidden)
qed

lemma generator_dated:
  "generator spec_sort spec_pagination dated_config
     \<lparr>all_posts = Some [post_C, post_B, post_A]\<rparr>
   = Inr [page_of [post_B, post_A] 1 2 ''explorations/'',
          page_of [post_C] 2 2 ''explorations/page/2/'']"
  by (simp add: generator_def dated_config_def or_string_def or_number_def
      explorationsPosts_scenario spec_sort_examples sticky_pass_examples
      spec_pagination_examples)

theorem hidden_flag_only_through_order_by_witness:
  "map without_hidden [post_C, post_B, post_A]
     = map without_hidden
         [post_C\<lparr>hidden := Some True\<rparr>, post_B\<lparr>hidden := None\<rparr>, post_A\<lparr>hidden := Some True\<rparr>]
   \<and> map_sum id (map (map_page without_hidden))
        (generator spec_sort spec_pagination dated_config
           \<lparr>all_posts = Some [post_C\<lparr>hidden := Some True\<rparr>, post_B\<lparr>hidden := None\<rparr>,
                               post_A\<lparr>hidden := Some True\<rparr>]\<rparr>)
     = Inr [page_of [without_hidden post_B, without_hidden post_A] 1 2 ''explorations/'',
            page_of [without_hidden post_C] 2 2 ''explorations/page/2/'']"
proof -
  have same: "map without_hidden [post_C, post_B, post_A]
     = map without_hidden
         [post_C\<lparr>hidden := Some True\<rparr>, post_B\<lparr>hidden := None\<rparr>, post_A\<lparr>hidden := Some True\<rparr>]"
    by (simp add: without_hidden_def)
  note unaffected = hidden_flag_only_through_order_by
      [where config = dated_config, OF _ same, THEN conjunct1]
  have "map_sum id (map (map_page without_hidden))
          (generator spec_sort spec_pagination dated_config
             \<lparr>all_posts = Some [post_C, post_B, post_A]\<rparr>)
        = map_sum id (map (map_page without_hidden))
          (generator spec_sort spec_pagination dated_config
             \<lparr>all_posts = Some [post_C\<lparr>hidden := Some True\<rparr>, post_B\<lparr>hidden := None\<rparr>,
                                 post_A\<lparr>hidden := Some True\<rparr>]\<rparr>)"
    by (rule unaffected) (auto simp: dated_config_def)
  then have "map_sum id (map (map_page without_hidden))
          (generator spec_sort spec_pagination dated_config
             \<lparr>all_posts = Some [post_C\<lparr>hidden := Some True\<rparr>, post_B\<lparr>hidden := None\<rparr>,
                                 post_A\<lparr>hidden := Some True\<rparr>]\<rparr>)
        = Inr [page_of [without_hidden post_B, without_hidden post_A] 1 2 ''explorations/'',
            page_of [without_hidden post_C] 2 2 ''explorations/page/2/'']"
    by (simp add: generator_dated map_page_def page_of_def)
  with same show ?thesis by blast
qed

text \<open>
  The claim as the specification states it fails when the configuration orders by the
  hidden flag. C and A, both of sticky priority 0, come in the order C, A when C is not
  hidden and A is, and in the order A, C when the flags are exchanged: the two collections
  differ in hidden flags only, the pages differ in the order of their items.
\<close>

theorem hidden_flag_counterexample:
  "map without_hidden [post_C\<lparr>hidden := Some False\<rparr>, post_A\<lparr>hidden := Some True\<rparr>]
     = map without_hidden [post_C\<lparr>hidden := Some True\<rparr>, post_A\<lparr>hidden := Some False\<rparr>]
   \<and> map_sum id (map (map_page without_hidden))
        (generator spec_sort spec_pagination hidden_order_config
           \<lparr>all_posts = Some [post_C\<lparr>hidden := Some False\<rparr>, post_A\<lparr>hidden := Some True\<rparr>]\<rparr>)
     = Inr [page_of [without_hidden post_C, without_hidden post_A] 1 1 ''explorations/'']
   \<and> map_sum id (map (map_page without_hidden))
        (generator spec_sort spec_pagination hidden_order_config
           \<lparr>all_posts = Some [post_C\<lparr>hidden := Some True\<rparr>, post_A\<lparr>hidden := Some False\<rparr>]\<rparr>)
     = Inr [page_of [without_hidden post_A, without_hidden post_C] 1 1 ''explorations/'']
   \<and> page_of [without_hidden post_C, without_hidden post_A] 1 1 ''explorations/''
     \<noteq> page_of [without_hidden post_A, without_hidden post_C] 1 1 ''explorations/''"
  by (simp add: generator_def hidden_order_config_def or_string_def or_number_def
      explorationsPosts_def spec_sort_def parse_order_by_def field_value_def
      primary_compare_def three_way_def js_sort_def sticky_compare_def
      spec_pagination_def chunk.simps enumerate_simps ceil_div_def page_path_def
      page_of_def map_page_def without_hidden_def post_A_def post_C_def)

end
